theory Spec2Isabelle
  imports Main "HOL-Library.Char_ord" "HOL-Library.List_Lexorder" "HOL-Library.Multiset"
begin

section \<open>Python values and built-ins used by the two generators\<close>

text \<open>
  A Python \<open>str\<close> is modelled as a \<open>string\<close>: every \<open>char\<close> stands for one Python
  character whose code point is below 256, so \<open>length\<close> is Python's \<open>len\<close> and the order
  of \<open>HOL-Library.List_Lexorder\<close> over \<open>HOL-Library.Char_ord\<close> is Python's comparison of
  strings by code point. A Python \<open>int\<close> is an \<open>int\<close>.
\<close>

definition backslash :: char where "backslash = CHR 0x5C"
definition squote :: char where "squote = CHR 0x27"
definition dquote :: char where "dquote = CHR 0x22"
definition newline :: char where "newline = CHR 0x0A"

datatype py_error = ValueError | KeyError | IndexError | TypeError | AttributeError | FileNotFoundError

text \<open>How a run ends: \<open>sys.exit(n)\<close> or falling off the end (\<open>Exit 0\<close>), or an uncaught
  exception, which the interpreter reports with exit code 1.\<close>

datatype status = Exit nat | Raised py_error

definition exit_code :: "status \<Rightarrow> nat" where
  "exit_code st = (case st of Exit n \<Rightarrow> n | Raised e \<Rightarrow> 1)"

text \<open>\<open>stdout\<close> and \<open>stderr\<close> hold the text of every \<open>print\<close> call, in order; \<open>opened\<close> holds
  the paths on which \<open>open\<close> was called.\<close>

record result =
  stdout :: "string list"
  stderr :: "string list"
  status :: status
  opened :: "string list"

text \<open>The bytes a stream receives: \<open>print\<close> writes its argument and a newline.\<close>

definition written :: "string list \<Rightarrow> string" where
  "written prints = concat (map (\<lambda>s. s @ [newline]) prints)"

subsection \<open>String methods\<close>

text \<open>\<open>sep.join(xs)\<close>\<close>

fun join :: "string \<Rightarrow> string list \<Rightarrow> string" where
  "join sep [] = []"
| "join sep [x] = x"
| "join sep (x # y # ys) = x @ sep @ join sep (y # ys)"

text \<open>\<open>s.split(sep)\<close> for a separator of one character: never empty, \<open>"".split(";") == [""]\<close>.\<close>

fun split_on :: "char \<Rightarrow> string \<Rightarrow> string list" where
  "split_on sep [] = [[]]"
| "split_on sep (c # cs) =
     (if c = sep then [] # split_on sep cs
      else (case split_on sep cs of f # fs \<Rightarrow> (c # f) # fs | [] \<Rightarrow> [[c]]))"

text \<open>\<open>s.startswith(p)\<close>\<close>

definition startswith :: "string \<Rightarrow> string \<Rightarrow> bool" where
  "startswith s p = (take (length p) s = p)"

text \<open>\<open>s.rstrip("\n")\<close> removes every trailing newline.\<close>

definition rstrip_newline :: "string \<Rightarrow> string" where
  "rstrip_newline s = rev (dropWhile (\<lambda>c. c = newline) (rev s))"

text \<open>\<open>s.strip()\<close> removes the characters for which \<open>str.isspace\<close> holds; below 256 these
  are 0x09 to 0x0D, 0x1C to 0x20, 0x85 and 0xA0.\<close>

definition isspace :: "char \<Rightarrow> bool" where
  "isspace c = (let n = (of_char c :: nat) in
     (9 \<le> n \<and> n \<le> 13) \<or> (28 \<le> n \<and> n \<le> 32) \<or> n = 133 \<or> n = 160)"

definition strip :: "string \<Rightarrow> string" where
  "strip s = rev (dropWhile isspace (rev (dropWhile isspace s)))"

text \<open>\<open>s[i:j]\<close>: a negative index counts from the end, and both are clipped to the string.\<close>

definition slice_index :: "int \<Rightarrow> nat \<Rightarrow> nat" where
  "slice_index i n = (if i < 0 then nat (max (i + int n) 0) else min (nat i) n)"

definition slice :: "'a list \<Rightarrow> int \<Rightarrow> int \<Rightarrow> 'a list" where
  "slice s i j = (let a = slice_index i (length s); b = slice_index j (length s)
                  in take (b - a) (drop a s))"

subsection \<open>Formatting integers\<close>

definition hex_char :: "nat \<Rightarrow> char" where
  "hex_char d = ''0123456789ABCDEF'' ! d"

fun to_hex :: "nat \<Rightarrow> string" where
  "to_hex n = (if n < 16 then [hex_char n] else to_hex (n div 16) @ [hex_char (n mod 16)])"

declare to_hex.simps [simp del]

fun to_dec :: "nat \<Rightarrow> string" where
  "to_dec n = (if n < 10 then [hex_char n] else to_dec (n div 10) @ [hex_char (n mod 10)])"

declare to_dec.simps [simp del]

text \<open>The format specification \<open>{n:0wX}\<close>: uppercase hexadecimal, padded with zeros to at
  least \<open>w\<close> characters, the sign of a negative number first and counted in the width.\<close>

definition zero_pad :: "nat \<Rightarrow> string \<Rightarrow> string" where
  "zero_pad w s = replicate (w - length s) (CHR ''0'') @ s"

definition format_X :: "nat \<Rightarrow> int \<Rightarrow> string" where
  "format_X w n = (if n < 0 then CHR ''-'' # zero_pad (w - 1) (to_hex (nat (- n)))
                   else zero_pad w (to_hex (nat n)))"

text \<open>The sixteen uppercase hexadecimal digits.\<close>

definition upper_hex :: "char \<Rightarrow> bool" where
  "upper_hex c = (c \<in> set ''0123456789ABCDEF'')"

subsection \<open>Parsing integers: \<open>int(s, 16)\<close>\<close>

definition hex_digit :: "char \<Rightarrow> nat option" where
  "hex_digit c = (let n = (of_char c :: nat) in
     if 48 \<le> n \<and> n \<le> 57 then Some (n - 48)
     else if 65 \<le> n \<and> n \<le> 70 then Some (n - 55)
     else if 97 \<le> n \<and> n \<le> 102 then Some (n - 87)
     else None)"

text \<open>The white space that \<open>int\<close> skips around the number: 0x09 to 0x0D, the space, 0x85
  and 0xA0.\<close>

definition int_space :: "char \<Rightarrow> bool" where
  "int_space c = (let n = (of_char c :: nat) in
     (9 \<le> n \<and> n \<le> 13) \<or> n = 32 \<or> n = 133 \<or> n = 160)"

definition underscore :: char where "underscore = CHR ''_''"

text \<open>Digits may be separated by single underscores: none first, none last, no two in a row.\<close>

fun digits_ok :: "string \<Rightarrow> bool" where
  "digits_ok [] = False"
| "digits_ok [c] = (hex_digit c \<noteq> None)"
| "digits_ok (c # d # cs) =
     (hex_digit c \<noteq> None \<and> (if d = underscore then digits_ok cs else digits_ok (d # cs)))"

definition digits_value :: "string \<Rightarrow> nat" where
  "digits_value s = foldl (\<lambda>acc c. case hex_digit c of Some d \<Rightarrow> 16 * acc + d | None \<Rightarrow> acc) 0 s"

definition py_int16 :: "string \<Rightarrow> int option" where
  "py_int16 s =
     (let s1 = dropWhile int_space s;
          neg = (s1 \<noteq> [] \<and> hd s1 = CHR ''-'');
          s2 = (if s1 \<noteq> [] \<and> (hd s1 = CHR ''+'' \<or> hd s1 = CHR ''-'') then tl s1 else s1);
          s3 = (case s2 of
                  a # b # r \<Rightarrow>
                    if a = CHR ''0'' \<and> (b = CHR ''x'' \<or> b = CHR ''X'')
                    then (case r of u # r' \<Rightarrow> if u = underscore then r' else r | [] \<Rightarrow> r)
                    else s2
                | _ \<Rightarrow> s2);
          body = takeWhile (\<lambda>c. hex_digit c \<noteq> None \<or> c = underscore) s3;
          rest = dropWhile (\<lambda>c. hex_digit c \<noteq> None \<or> c = underscore) s3
      in if digits_ok body \<and> list_all int_space rest
         then Some (if neg then - int (digits_value body) else int (digits_value body))
         else None)"

text \<open>Running a fallible step over a list, stopping at the first error, as a loop whose
  body raises does.\<close>

fun traverse :: "('a \<Rightarrow> 'e + 'b) \<Rightarrow> 'a list \<Rightarrow> 'e + 'b list" where
  "traverse f [] = Inr []"
| "traverse f (x # xs) =
     (case f x of
        Inl e \<Rightarrow> Inl e
      | Inr y \<Rightarrow> (case traverse f xs of Inl e \<Rightarrow> Inl e | Inr ys \<Rightarrow> Inr (y # ys)))"

section \<open>The case-mapping generator (generate-case-transform-cpp.py)\<close>

definition transformations :: "string list" where
  "transformations = [''simple_lower'', ''simple_upper'', ''special_lower'', ''special_upper'']"

definition to_char_escape :: "int \<Rightarrow> string" where
  "to_char_escape code_point =
     (if code_point > 0xFFFF then [backslash, CHR ''U''] @ format_X 8 code_point
      else [backslash, CHR ''u''] @ format_X 4 code_point)"

definition to_char_literal :: "int \<Rightarrow> string" where
  "to_char_literal code_point = ''U'' @ [squote] @ to_char_escape code_point @ [squote]"

definition format_code_points :: "int list \<Rightarrow> string" where
  "format_code_points code_points = join '','' (map to_char_literal code_points)"

text \<open>\<open>print_simple\<close> and \<open>print_special\<close> give the text that the source passes to \<open>print\<close>.\<close>

definition print_simple :: "int \<Rightarrow> int \<Rightarrow> string" where
  "print_simple code_point transformed =
     ''{'' @ format_code_points [code_point, transformed] @ ''},''"

definition print_special :: "int \<Rightarrow> int list \<Rightarrow> string" where
  "print_special code_point transformed =
     (let key = to_char_literal code_point;
          val = ''U'' @ [dquote] @ concat (map to_char_escape transformed) @ [dquote]
      in ''{'' @ key @ '','' @ val @ ''},'')"

definition expected_columns :: "string \<Rightarrow> nat" where
  "expected_columns transformation = (if startswith transformation ''simple'' then 15 else 5)"

text \<open>What one iteration of the loop over the lines does: \<open>Skip\<close> goes on to the next line
  with nothing printed, \<open>Emit\<close> prints one line and goes on, \<open>Halt\<close> is the \<open>break\<close>,
  \<open>Die\<close> is \<open>sys.exit\<close> after printing to the error stream, \<open>Throw\<close> is an uncaught
  exception.\<close>

datatype outcome = Skip | Emit string | Halt | Die "string list" nat | Throw py_error

text \<open>\<open>fields[i]\<close>, which raises when the index is out of range (the list \<open>fields\<close> of
  the source is \<open>flds\<close> here).\<close>

definition field :: "string list \<Rightarrow> nat \<Rightarrow> (string \<Rightarrow> outcome) \<Rightarrow> outcome" where
  "field flds i k = (if i < length flds then k (flds ! i) else Throw IndexError)"

text \<open>\<open>[int(c, 16) for c in s.strip().split(" ")]\<close>\<close>

definition parse_code_points :: "string \<Rightarrow> int list option" where
  "parse_code_points s =
     (let pieces = map py_int16 (split_on (CHR '' '') (strip s))
      in if list_all (\<lambda>p. p \<noteq> None) pieces then Some (map the pieces) else None)"

definition process_line :: "string \<Rightarrow> string \<Rightarrow> outcome" where
  "process_line transformation raw =
     (let line = rstrip_newline raw in
      if line = [] \<or> startswith line ''#'' then Skip
      else
        let flds = split_on (CHR '';'') line in
        if length flds < expected_columns transformation
        then Die [''Expected at least '' @ to_dec (expected_columns transformation)
                    @ '' columns, but got '' @ to_dec (length flds)] 1
        else if startswith transformation ''special'' \<and> length flds \<ge> 6 then Halt
        else field flds 0 (\<lambda>f0.
          case py_int16 f0 of
            None \<Rightarrow> Throw ValueError
          | Some code_point \<Rightarrow>
              if transformation = ''simple_upper'' then
                field flds 2 (\<lambda>general_category.
                  if general_category = ''Ll'' then
                    field flds 12 (\<lambda>f12.
                      if f12 \<noteq> [] then
                        (case py_int16 f12 of
                           None \<Rightarrow> Throw ValueError
                         | Some t \<Rightarrow> Emit (print_simple code_point t))
                      else Skip)
                  else Skip)
              else if transformation = ''simple_lower'' then
                field flds 2 (\<lambda>general_category.
                  if general_category = ''Lu'' then
                    field flds 13 (\<lambda>f13.
                      if f13 \<noteq> [] then
                        (case py_int16 f13 of
                           None \<Rightarrow> Throw ValueError
                         | Some t \<Rightarrow> Emit (print_simple code_point t))
                      else Skip)
                  else Skip)
              else if transformation = ''special_upper'' then
                field flds 3 (\<lambda>f3.
                  case parse_code_points f3 of
                    None \<Rightarrow> Throw ValueError
                  | Some transformed \<Rightarrow>
                      if length transformed \<ge> 2
                      then Emit (print_special code_point transformed) else Skip)
              else if transformation = ''special_lower'' then
                field flds 1 (\<lambda>f1.
                  case parse_code_points f1 of
                    None \<Rightarrow> Throw ValueError
                  | Some transformed \<Rightarrow>
                      if length transformed \<ge> 2
                      then Emit (print_special code_point transformed) else Skip)
              else Die [] 1))"

text \<open>The loop over the lines of the file: the lines printed, the diagnostics, and how the
  loop ended.\<close>

fun for_lines :: "string \<Rightarrow> string list \<Rightarrow> string list \<times> string list \<times> status" where
  "for_lines transformation [] = ([], [], Exit 0)"
| "for_lines transformation (l # ls) =
     (case process_line transformation l of
        Skip \<Rightarrow> for_lines transformation ls
      | Emit s \<Rightarrow> (case for_lines transformation ls of (out, err, st) \<Rightarrow> (s # out, err, st))
      | Halt \<Rightarrow> ([], [], Exit 0)
      | Die msgs c \<Rightarrow> ([], msgs, Exit c)
      | Throw e \<Rightarrow> ([], [], Raised e))"

text \<open>The conditions the loop body tests, for stating properties: a record is a line that
  is neither blank nor a comment; its fields are what \<open>split\<close> gives; a line lets the loop
  continue when its iteration neither breaks, exits nor raises.\<close>

definition is_record :: "string \<Rightarrow> bool" where
  "is_record raw = (rstrip_newline raw \<noteq> [] \<and> \<not> startswith (rstrip_newline raw) ''#'')"

definition fields_of :: "string \<Rightarrow> string list" where
  "fields_of raw = split_on (CHR '';'') (rstrip_newline raw)"

definition continues :: "string \<Rightarrow> string \<Rightarrow> bool" where
  "continues transformation raw =
     (case process_line transformation raw of Skip \<Rightarrow> True | Emit s \<Rightarrow> True | _ \<Rightarrow> False)"

definition usage :: "string \<Rightarrow> string" where
  "usage prog = ''Usage: '' @ prog @ '' <Data.txt> ('' @ join ''|'' transformations @ '')''"

text \<open>\<open>main\<close> takes \<open>sys.argv\<close> and the file system: a path that exists is mapped to the
  lines that iterating over the opened file yields.\<close>

definition main :: "string list \<Rightarrow> (string \<rightharpoonup> string list) \<Rightarrow> result" where
  "main argv fs =
     (if length argv \<noteq> 3 then
        (case argv of
           [] \<Rightarrow> \<lparr>stdout = [], stderr = [], status = Raised IndexError, opened = []\<rparr>
         | prog # args \<Rightarrow> \<lparr>stdout = [], stderr = [usage prog], status = Exit 1, opened = []\<rparr>)
      else
        let transformation = argv ! 2 in
        if transformation \<notin> set transformations then
          \<lparr>stdout = [],
           stderr = [''Invalid transformation '' @ [dquote] @ transformation @ [dquote]],
           status = Exit 1, opened = []\<rparr>
        else
          let path = argv ! 1 in
          (case fs path of
             None \<Rightarrow> \<lparr>stdout = [], stderr = [], status = Raised FileNotFoundError, opened = [path]\<rparr>
           | Some lines \<Rightarrow>
               (case for_lines transformation lines of
                  (out, err, st) \<Rightarrow> \<lparr>stdout = out, stderr = err, status = st, opened = [path]\<rparr>)))"

text \<open>Sample lines of the two input files, as iterating over the file yields them: two
  records of \<open>UnicodeData.txt\<close> (the second cut short), and three of \<open>SpecialCasing.txt\<close>
  (the second one conditional, with a sixth field).\<close>

definition latin_capital_a :: string where
  "latin_capital_a = ''0041;LATIN CAPITAL LETTER A;Lu;0;L;;;;;N;;;;0061;'' @ [newline]"

definition latin_small_a :: string where
  "latin_small_a = ''0061;LATIN SMALL LETTER A;Ll;0;L;;;;;N;;;0041;;0041'' @ [newline]"

definition short_record :: string where
  "short_record = ''0042;B'' @ [newline]"

definition sharp_s :: string where
  "sharp_s = ''00DF; 00DF; 0053 0073; 0053 0053; # LATIN SMALL LETTER SHARP S'' @ [newline]"

definition final_sigma :: string where
  "final_sigma =
     ''03A3; 03C2; 03A3; 03A3; Final_Sigma; # GREEK CAPITAL LETTER SIGMA'' @ [newline]"

definition ligature_ff :: string where
  "ligature_ff = ''FB00; FB00; 0046 0066; 0046 0046; # LATIN SMALL LIGATURE FF'' @ [newline]"

section \<open>The entity generator (generate-html-entities-cpp.py)\<close>

text \<open>What \<open>json.load\<close> returns. An object is a Python \<open>dict\<close>, given by its items in
  iteration order. A number with a fraction or an exponent is a \<open>float\<close>, whose value the
  generator never gets to use.\<close>

datatype json =
  JNull | JBool bool | JInt int | JFloat | JString string
  | JArray "json list" | JObject "(string \<times> json) list"

text \<open>The body of the loop of \<open>format_code_points\<close>: comparing with \<open>0xFFFF\<close> raises for
  a value that is not a number, the format \<open>X\<close> raises for a \<open>float\<close>, and a \<open>bool\<close> is
  the integer 0 or 1.\<close>

definition format_int :: "int \<Rightarrow> string" where
  "format_int code_point =
     (if code_point > 0xFFFF
      then ''U'' @ [squote, backslash] @ ''U'' @ format_X 8 code_point @ [squote]
      else ''U'' @ [squote, backslash] @ ''u'' @ format_X 4 code_point @ [squote])"

fun format_code_point :: "json \<Rightarrow> py_error + string" where
  "format_code_point (JInt n) = Inr (format_int n)"
| "format_code_point (JBool b) = Inr (format_int (if b then 1 else 0))"
| "format_code_point JFloat = Inl ValueError"
| "format_code_point v = Inl TypeError"

text \<open>\<open>for code_point in code_points\<close>: a list yields its elements, a string its
  characters, a dict its keys; nothing else can be iterated.\<close>

fun iterate :: "json \<Rightarrow> py_error + json list" where
  "iterate (JArray xs) = Inr xs"
| "iterate (JString s) = Inr (map (\<lambda>c. JString [c]) s)"
| "iterate (JObject kvs) = Inr (map (\<lambda>kv. JString (fst kv)) kvs)"
| "iterate v = Inl TypeError"

definition format_code_points_entities :: "json \<Rightarrow> py_error + string" where
  "format_code_points_entities code_points =
     (case iterate code_points of
        Inl e \<Rightarrow> Inl e
      | Inr xs \<Rightarrow>
          (case traverse format_code_point xs of
             Inl e \<Rightarrow> Inl e
           | Inr formatted_code_points \<Rightarrow> Inr (join '','' formatted_code_points)))"

text \<open>\<open>entry[key]\<close> for a string key.\<close>

fun subscript :: "json \<Rightarrow> string \<Rightarrow> py_error + json" where
  "subscript (JObject kvs) key = (case map_of kvs key of None \<Rightarrow> Inl KeyError | Some v \<Rightarrow> Inr v)"
| "subscript v key = Inl TypeError"

definition name_cropped :: "string \<Rightarrow> string" where
  "name_cropped name = slice name 1 (- 1)"

text \<open>The body of the loop over \<open>data.items()\<close>: the line appended to \<open>output\<close>.\<close>

definition entry_line :: "string \<times> json \<Rightarrow> py_error + string" where
  "entry_line item =
     (case item of (name, entry) \<Rightarrow>
        (case subscript entry ''codepoints'' of
           Inl e \<Rightarrow> Inl e
         | Inr code_points \<Rightarrow>
             (case format_code_points_entities code_points of
                Inl e \<Rightarrow> Inl e
              | Inr code_points_formatted \<Rightarrow>
                  Inr (''{u8'' @ [dquote] @ name_cropped name @ [dquote] @ '',''
                       @ to_dec (length (name_cropped name))
                       @ '',{'' @ code_points_formatted @ ''}},''))))"

definition main_entities :: "json \<Rightarrow> result" where
  "main_entities data =
     (case data of
        JObject items \<Rightarrow>
          (case traverse entry_line items of
             Inl e \<Rightarrow> \<lparr>stdout = [], stderr = [], status = Raised e, opened = []\<rparr>
           | Inr output \<Rightarrow>
               \<lparr>stdout = [''// NOLINTBEGIN'', ''// clang-format off'',
                          join [newline] (sort output),
                          ''// clang-format on'', ''// NOLINTEND''],
                stderr = [], status = Exit 0, opened = []\<rparr>)
      | _ \<Rightarrow> \<lparr>stdout = [], stderr = [], status = Raised AttributeError, opened = []\<rparr>)"

text \<open>The documents the generator is written for: an object whose every value is an
  object with a \<open>codepoints\<close> array of integers.\<close>

definition is_int :: "json \<Rightarrow> bool" where
  "is_int v = (case v of JInt n \<Rightarrow> True | _ \<Rightarrow> False)"

definition entry_ok :: "json \<Rightarrow> bool" where
  "entry_ok entry =
     (case entry of
        JObject kvs \<Rightarrow>
          (case map_of kvs ''codepoints'' of Some (JArray xs) \<Rightarrow> list_all is_int xs | _ \<Rightarrow> False)
      | _ \<Rightarrow> False)"

definition document_ok :: "json \<Rightarrow> bool" where
  "document_ok data =
     (case data of JObject items \<Rightarrow> list_all (\<lambda>item. entry_ok (snd item)) items | _ \<Rightarrow> False)"

text \<open>The definition of Scenario C: the name \<open>&amp;\<close> with the code-point sequence \<open>[38]\<close>.\<close>

definition amp_document :: json where
  "amp_document = JObject [(''&amp;'', JObject [(''codepoints'', JArray [JInt 38])])]"

section \<open>Properties of the formatting and parsing of code points\<close>



lemma lt16_cases:
  "d < 16 \<Longrightarrow> d \<in> {0, 1, 2, 3, 4, 5, 6, 7, 8, 9, 10, 11, 12, 13, 14, 15::nat}"
  unfolding insert_iff empty_iff by arith

lemma hex_digit_hex_char: "d < 16 \<Longrightarrow> hex_digit (hex_char d) = Some d"
  by (drule lt16_cases) (auto simp: hex_char_def hex_digit_def)

lemma upper_hex_hex_char: "d < 16 \<Longrightarrow> upper_hex (hex_char d)"
  by (drule lt16_cases) (auto simp: hex_char_def upper_hex_def)

lemma upper_hex_facts:
  "upper_hex c \<Longrightarrow> hex_digit c \<noteq> None \<and> c \<noteq> underscore \<and> \<not> int_space c
     \<and> c \<noteq> CHR ''+'' \<and> c \<noteq> CHR ''-'' \<and> c \<noteq> CHR ''x'' \<and> c \<noteq> CHR ''X''"
  by (auto simp: upper_hex_def hex_digit_def underscore_def int_space_def)

lemma to_hex_upper: "list_all upper_hex (to_hex n)"
proof (induction n rule: to_hex.induct)
  case (1 n)
  show ?case
  proof (cases "n < 16")
    case True
    then show ?thesis by (simp add: to_hex.simps [of n] upper_hex_hex_char)
  next
    case False
    with 1 show ?thesis by (simp add: to_hex.simps [of n] upper_hex_hex_char)
  qed
qed

lemma to_hex_nonempty: "to_hex n \<noteq> []"
  by (simp add: to_hex.simps [of n])

lemma digits_value_snoc:
  "hex_digit c = Some d \<Longrightarrow> digits_value (s @ [c]) = 16 * digits_value s + d"
  by (simp add: digits_value_def)

lemma digits_value_to_hex: "digits_value (to_hex n) = n"
proof (induction n rule: to_hex.induct)
  case (1 n)
  show ?case
  proof (cases "n < 16")
    case True
    then show ?thesis
      by (simp add: to_hex.simps [of n] digits_value_def hex_digit_hex_char)
  next
    case False
    have "digits_value (to_hex n) = 16 * digits_value (to_hex (n div 16)) + n mod 16"
      using False by (simp add: to_hex.simps [of n] digits_value_snoc hex_digit_hex_char)
    with 1 False show ?thesis by simp
  qed
qed

lemma length_to_hex: "0 < w \<Longrightarrow> n < 16 ^ w \<Longrightarrow> length (to_hex n) \<le> w"
proof (induction n arbitrary: w rule: to_hex.induct)
  case (1 n)
  show ?case
  proof (cases "n < 16")
    case True
    with 1 show ?thesis by (simp add: to_hex.simps [of n] Suc_leI)
  next
    case False
    obtain v where w: "w = Suc v" using "1.prems" by (cases w) auto
    have "v \<noteq> 0" using False "1.prems" w by (cases v) auto
    moreover have "n div 16 < 16 ^ v" using "1.prems" w
      by (simp add: less_mult_imp_div_less mult.commute)
    ultimately have "length (to_hex (n div 16)) \<le> v" using "1.IH" [of v] False by simp
    then show ?thesis using False w by (simp add: to_hex.simps [of n])
  qed
qed


lemma zero_pad_length: "length s \<le> w \<Longrightarrow> length (zero_pad w s) = w"
  by (simp add: zero_pad_def)

lemma zero_pad_upper: "list_all upper_hex s \<Longrightarrow> list_all upper_hex (zero_pad w s)"
proof -
  have "upper_hex (CHR ''0'')" by (simp add: upper_hex_def)
  then have "list_all upper_hex (replicate k (CHR ''0''))" for k
    by (induction k) simp_all
  then show "list_all upper_hex s \<Longrightarrow> list_all upper_hex (zero_pad w s)"
    by (simp add: zero_pad_def)
qed

lemma digits_value_zero_pad: "digits_value (zero_pad w s) = digits_value s"
proof -
  have z: "foldl (\<lambda>acc c. case hex_digit c of Some d \<Rightarrow> 16 * acc + d | None \<Rightarrow> acc) 0
             (replicate k (CHR ''0'')) = 0" for k
    by (induction k) (simp_all add: hex_digit_def)
  show ?thesis by (simp add: zero_pad_def digits_value_def z)
qed

lemma digits_ok_upper: "list_all upper_hex s \<Longrightarrow> s \<noteq> [] \<Longrightarrow> digits_ok s"
  by (induction s rule: digits_ok.induct) (auto dest: upper_hex_facts)

lemma py_int16_upper:
  assumes "list_all upper_hex s" "s \<noteq> []"
  shows "py_int16 s = Some (int (digits_value s))"
proof -
  have all: "\<forall>c\<in>set s. hex_digit c \<noteq> None \<or> c = underscore"
    using assms(1) by (auto simp: list_all_iff dest: upper_hex_facts)
  obtain c cs where s: "s = c # cs" using assms(2) by (cases s) auto
  have c: "upper_hex c" using assms(1) s by simp
  have s1: "dropWhile int_space s = s" using c s upper_hex_facts [OF c] by simp
  have s3: "(case s of
                  a # b # r \<Rightarrow>
                    if a = CHR ''0'' \<and> (b = CHR ''x'' \<or> b = CHR ''X'')
                    then (case r of u # r' \<Rightarrow> if u = underscore then r' else r | [] \<Rightarrow> r)
                    else s
                | _ \<Rightarrow> s) = s"
  proof (cases cs)
    case Nil
    then show ?thesis using s by simp
  next
    case (Cons b r)
    then have "upper_hex b" using assms(1) s by simp
    from upper_hex_facts [OF this] show ?thesis using s Cons by simp
  qed
  have tw: "takeWhile (\<lambda>c. hex_digit c \<noteq> None \<or> c = underscore) s = s"
    using all by (simp add: takeWhile_eq_all_conv)
  have dw: "dropWhile (\<lambda>c. hex_digit c \<noteq> None \<or> c = underscore) s = []"
    using all by simp
  have hd: "hd s \<noteq> CHR ''+'' \<and> hd s \<noteq> CHR ''-''" using s upper_hex_facts [OF c] by simp
  have s2: "(if s \<noteq> [] \<and> (hd s = CHR ''+'' \<or> hd s = CHR ''-'') then tl s else s) = s"
    using hd by simp
  show ?thesis
    unfolding py_int16_def Let_def s1 s2 s3 tw dw using hd
    by (simp add: digits_ok_upper [OF assms])
qed


lemma format_X_digits:
  assumes "0 \<le> n" "n < 16 ^ w" "0 < w"
  shows "length (format_X w n) = w \<and> list_all upper_hex (format_X w n)
         \<and> py_int16 (format_X w n) = Some n"
proof -
  have lt: "nat n < 16 ^ w" using assms(1,2) by (simp add: nat_less_iff)
  have eq: "format_X w n = zero_pad w (to_hex (nat n))" using assms(1) by (simp add: format_X_def)
  have len: "length (format_X w n) = w"
    using length_to_hex [OF assms(3) lt] by (simp add: eq zero_pad_length)
  have up: "list_all upper_hex (format_X w n)"
    by (simp add: eq zero_pad_upper to_hex_upper)
  have ne: "format_X w n \<noteq> []" using len assms(3) by auto
  have "py_int16 (format_X w n) = Some (int (digits_value (format_X w n)))"
    by (rule py_int16_upper [OF up ne])
  also have "digits_value (format_X w n) = nat n"
    by (simp add: eq digits_value_zero_pad digits_value_to_hex)
  finally show ?thesis using len up assms(1) by simp
qed

lemma format_int_literal: "format_int n = to_char_literal n"
  by (simp add: format_int_def to_char_literal_def to_char_escape_def)

lemma traverse_format_ints:
  "traverse format_code_point (map JInt cps) = Inr (map to_char_literal cps)"
  by (induction cps) (simp_all add: format_int_literal)

lemma entities_format_agrees:
  "format_code_points_entities (JArray (map JInt cps)) = Inr (format_code_points cps)"
  by (simp add: format_code_points_entities_def format_code_points_def traverse_format_ints)

text \<open>
  Claim C1. Every code point from 0 up to and beyond the Unicode range (any value below
  \<open>2 ^ 32\<close>) is escaped as a backslash, then \<open>u\<close> and exactly 4 uppercase hexadecimal
  digits when it is at most \<open>0xFFFF\<close>, or \<open>U\<close> and exactly 8 such digits when it is larger;
  the digits read back as the code point. \<open>0x41\<close> gives \<open>\u0041\<close> and \<open>0x1F600\<close> gives
  \<open>\U0001F600\<close>. The entity generator, which formats code points with its own copy of
  the rule, produces the same literal for every integer and the same list for every
  sequence of integers as the case-mapping generator does.
\<close>

theorem code_point_escape_rule:
  assumes "0 \<le> cp" and "cp < 2 ^ 32"
  shows "(\<exists>ds. to_char_escape cp = [backslash, (if cp > 0xFFFF then CHR ''U'' else CHR ''u'')] @ ds
            \<and> length ds = (if cp > 0xFFFF then 8 else 4)
            \<and> list_all upper_hex ds \<and> py_int16 ds = Some cp)
         \<and> to_char_escape 0x41 = backslash # ''u0041''
         \<and> to_char_escape 0x1F600 = backslash # ''U0001F600''
         \<and> format_code_point (JInt cp) = Inr (to_char_literal cp)
         \<and> format_code_points_entities (JArray (map JInt cps)) = Inr (format_code_points cps)"
proof -
  have a: "\<exists>ds. to_char_escape cp = [backslash, (if cp > 0xFFFF then CHR ''U'' else CHR ''u'')] @ ds
            \<and> length ds = (if cp > 0xFFFF then 8 else 4)
            \<and> list_all upper_hex ds \<and> py_int16 ds = Some cp"
  proof (cases "cp > 0xFFFF")
    case True
    have "cp < 16 ^ 8" using assms(2) by simp
    from format_X_digits [OF assms(1) this] True show ?thesis
      by (intro exI [of _ "format_X 8 cp"]) (simp add: to_char_escape_def)
  next
    case False
    then have "cp < 16 ^ 4" by simp
    from format_X_digits [OF assms(1) this] False show ?thesis
      by (intro exI [of _ "format_X 4 cp"]) (simp add: to_char_escape_def)
  qed
  have b: "to_char_escape 0x41 = backslash # ''u0041''"
    by (simp add: to_char_escape_def format_X_def zero_pad_def to_hex.simps hex_char_def
        numeral_2_eq_2)
  have c: "to_char_escape 0x1F600 = backslash # ''U0001F600''"
    by (simp add: to_char_escape_def format_X_def zero_pad_def to_hex.simps hex_char_def
        numeral_3_eq_3)
  have d: "format_code_point (JInt cp) = Inr (to_char_literal cp)"
    by (simp add: format_int_literal)
  from a b c d entities_format_agrees show ?thesis by blast
qed

theorem code_point_escape_rule_witness:
  "(0::int) \<le> 0x1F600 \<and> (0x1F600::int) < 2 ^ 32
   \<and> (\<exists>ds. to_char_escape 0x1F600
            = [backslash, (if (0x1F600::int) > 0xFFFF then CHR ''U'' else CHR ''u'')] @ ds
         \<and> length ds = (if (0x1F600::int) > 0xFFFF then 8 else 4)
         \<and> list_all upper_hex ds \<and> py_int16 ds = Some 0x1F600)
   \<and> format_code_points_entities (JArray (map JInt [0x26, 0x1F600]))
       = Inr (format_code_points [0x26, 0x1F600])"
proof -
  have h1: "(0::int) \<le> 0x1F600" by simp
  have h2: "(0x1F600::int) < 2 ^ 32" by simp
  from code_point_escape_rule [OF h1 h2, of "[0x26, 0x1F600]"] h1 h2 show ?thesis by blast
qed

section \<open>Properties of the case-mapping generator\<close>

text \<open>
  Claim C9. Whenever the mode argument of the case-mapping generator is none of the four
  recognised names, the run prints one diagnostic on the error stream, prints nothing on
  the output stream, exits with code 1, and has opened no file, whatever the file system
  holds. With the three arguments the script expects, the diagnostic names the rejected
  mode; with any other number of arguments it is the usage line, whatever the mode.
\<close>

theorem invalid_mode_rejected:
  assumes "argv \<noteq> []"
    and "length argv \<noteq> 3 \<or> argv ! 2 \<notin> set transformations"
  shows "main argv fs =
           \<lparr>stdout = [],
            stderr = [if length argv \<noteq> 3 then usage (hd argv)
                      else ''Invalid transformation '' @ [dquote] @ argv ! 2 @ [dquote]],
            status = Exit 1, opened = []\<rparr>
         \<and> exit_code (status (main argv fs)) = 1"
proof (cases "length argv = 3")
  case True
  with assms(2) show ?thesis by (simp add: main_def exit_code_def)
next
  case False
  with assms(1) show ?thesis by (cases argv) (simp_all add: main_def exit_code_def)
qed

theorem invalid_mode_rejected_witness:
  "[''gen'', ''UnicodeData.txt'', ''title''] \<noteq> []
   \<and> [''gen'', ''UnicodeData.txt'', ''title''] ! 2 \<notin> set transformations
   \<and> main [''gen'', ''UnicodeData.txt'', ''title''] [''UnicodeData.txt'' \<mapsto> [''0041;A'']] =
           \<lparr>stdout = [],
            stderr = [''Invalid transformation '' @ [dquote] @ ''title'' @ [dquote]],
            status = Exit 1, opened = []\<rparr>"
  using invalid_mode_rejected [of "[''gen'', ''UnicodeData.txt'', ''title'']"
      "[''UnicodeData.txt'' \<mapsto> [''0041;A'']]"]
  by (simp add: transformations_def)

lemma expected_columns_special:
  "tr = ''special_lower'' \<or> tr = ''special_upper'' \<Longrightarrow>
     expected_columns tr = 5 \<and> startswith tr ''special''"
  by (auto simp: expected_columns_def startswith_def)

lemma expected_columns_simple:
  "tr = ''simple_lower'' \<or> tr = ''simple_upper'' \<Longrightarrow>
     expected_columns tr = 15 \<and> \<not> startswith tr ''special''"
  by (auto simp: expected_columns_def startswith_def)

lemma process_line_skip: "\<not> is_record l \<Longrightarrow> process_line tr l = Skip"
  by (auto simp: process_line_def is_record_def)

lemma process_line_short:
  "is_record l \<Longrightarrow> length (fields_of l) < expected_columns tr \<Longrightarrow>
     process_line tr l = Die [''Expected at least '' @ to_dec (expected_columns tr)
                    @ '' columns, but got '' @ to_dec (length (fields_of l))] 1"
  by (simp add: process_line_def is_record_def fields_of_def Let_def)

lemma process_line_halt:
  assumes "tr = ''special_lower'' \<or> tr = ''special_upper''" "is_record l" "6 \<le> length (fields_of l)"
  shows "process_line tr l = Halt"
  using assms(2,3) expected_columns_special [OF assms(1)]
  by (simp add: process_line_def is_record_def fields_of_def Let_def)

lemma for_lines_append_stop:
  assumes "for_lines tr (l # post) = ([], err, st)"
  shows "for_lines tr (pre @ l # post) =
           (case for_lines tr pre of (out, e, s) \<Rightarrow>
              if list_all (continues tr) pre then (out, err, st) else (out, e, s))"
  using assms
  by (induction pre) (auto simp: continues_def split: outcome.splits prod.splits)

lemma for_lines_continues:
  "list_all (continues tr) pre \<Longrightarrow> snd (for_lines tr pre) = ([], Exit 0)"
  by (induction pre) (auto simp: continues_def split: outcome.splits prod.splits)


lemmas builtin_simps =
  rstrip_newline_def startswith_def strip_def isspace_def newline_def Let_def
  py_int16_def int_space_def hex_digit_def underscore_def digits_value_def
  format_X_def zero_pad_def to_hex.simps to_dec.simps hex_char_def
  numeral_2_eq_2 numeral_3_eq_3

lemmas case_simps =
  latin_capital_a_def latin_small_a_def short_record_def sharp_s_def final_sigma_def ligature_ff_def
  process_line_def is_record_def fields_of_def expected_columns_def field_def
  parse_code_points_def print_simple_def print_special_def format_code_points_def
  to_char_literal_def to_char_escape_def

lemma scenario_A:
  "process_line ''simple_lower'' latin_capital_a
   = Emit (''{U'' @ [squote, backslash] @ ''u0041'' @ [squote] @ '',U'' @ [squote, backslash]
           @ ''u0061'' @ [squote] @ ''},'')"
  by (simp add: case_simps builtin_simps)

lemma scenario_B:
  "process_line ''special_upper''
     sharp_s
   = Emit (''{U'' @ [squote, backslash] @ ''u00DF'' @ [squote] @ '',U'' @ [dquote, backslash]
           @ ''u0053'' @ [backslash] @ ''u0053'' @ [dquote] @ ''},'')"
  by (simp add: case_simps builtin_simps)


lemma short_B:
  "is_record short_record \<and> length (fields_of short_record) = 2"
  by (simp add: case_simps rstrip_newline_def startswith_def newline_def)

lemma sigma_six:
  "is_record final_sigma
   \<and> length (fields_of
        final_sigma) = 6"
  by (simp add: case_simps rstrip_newline_def startswith_def newline_def)

lemma short_x: "is_record ''x'' \<and> length (fields_of ''x'') = 1"
  by (simp add: case_simps rstrip_newline_def startswith_def newline_def)

text \<open>
  Claim C4. In the two special-mapping modes a record with six or more fields is a
  \<open>break\<close>: whatever precedes and follows it, the whole run is the run over the preceding
  lines alone, so neither that record nor any later line emits an entry or raises an
  error, and when the preceding lines all let the loop continue the run ends normally
  with exit status 0 and nothing on the error stream.
\<close>

theorem special_stops_at_six_fields:
  assumes "tr = ''special_lower'' \<or> tr = ''special_upper''"
    and "is_record l" and "6 \<le> length (fields_of l)"
  shows "process_line tr l = Halt
         \<and> for_lines tr (pre @ l # post) = for_lines tr pre
         \<and> (list_all (continues tr) pre \<longrightarrow>
              snd (for_lines tr (pre @ l # post)) = ([], Exit 0))
         \<and> main [prog, path, tr] (fs(path \<mapsto> pre @ l # post))
             = main [prog, path, tr] (fs(path \<mapsto> pre))"
proof -
  have h: "process_line tr l = Halt" by (rule process_line_halt [OF assms])
  then have stop: "for_lines tr (l # post) = ([], [], Exit 0)" by simp
  have eq: "for_lines tr (pre @ l # post) = for_lines tr pre"
    using for_lines_append_stop [OF stop, of pre] for_lines_continues [of tr pre]
    by (auto split: prod.splits)
  have m: "main [prog, path, tr] (fs(path \<mapsto> pre @ l # post))
             = main [prog, path, tr] (fs(path \<mapsto> pre))"
    by (simp add: main_def eq)
  from h eq m for_lines_continues [of tr pre] show ?thesis by simp
qed

theorem special_stops_at_six_fields_witness:
  "(''special_upper'' = ''special_lower'' \<or> ''special_upper'' = ''special_upper'')
   \<and> is_record final_sigma
   \<and> 6 \<le> length (fields_of
        final_sigma)
   \<and> for_lines ''special_upper''
        ([sharp_s]
         @ final_sigma
         # [ligature_ff])
      = for_lines ''special_upper''
         [sharp_s]"
proof -
  have t: "''special_upper'' = ''special_lower'' \<or> ''special_upper'' = ''special_upper''"
    by simp
  note r = sigma_six [THEN conjunct1]
  have n: "6 \<le> length (fields_of
        final_sigma)"
    using sigma_six by simp
  from special_stops_at_six_fields [OF t r n] t r n show ?thesis by blast
qed

text \<open>
  Claim C3, as amended. When the loop reaches a record with fewer fields than the mode
  requires (every earlier line let the loop continue), the run prints the expected and
  the actual field counts on the error stream and exits with code 1; nothing is emitted
  for that record or for any later line, and the output stream holds exactly the entry
  lines of the preceding records, which were printed as they were processed. The
  required count is 15 in the simple modes and 5 in the special modes.
\<close>

theorem short_record_aborts:
  assumes "list_all (continues tr) pre"
    and "is_record l" and "length (fields_of l) < expected_columns tr"
  shows "for_lines tr (pre @ l # post) =
           (fst (for_lines tr pre),
            [''Expected at least '' @ to_dec (expected_columns tr)
               @ '' columns, but got '' @ to_dec (length (fields_of l))],
            Exit 1)
         \<and> (tr \<in> set transformations \<longrightarrow>
              main [prog, path, tr] (fs(path \<mapsto> pre @ l # post)) =
                \<lparr>stdout = fst (for_lines tr pre),
                 stderr = [''Expected at least '' @ to_dec (expected_columns tr)
                             @ '' columns, but got '' @ to_dec (length (fields_of l))],
                 status = Exit 1, opened = [path]\<rparr>)
         \<and> expected_columns ''simple_lower'' = 15 \<and> expected_columns ''simple_upper'' = 15
         \<and> expected_columns ''special_lower'' = 5 \<and> expected_columns ''special_upper'' = 5"
proof -
  let ?msg = "''Expected at least '' @ to_dec (expected_columns tr)
               @ '' columns, but got '' @ to_dec (length (fields_of l))"
  have "for_lines tr (l # post) = ([], [?msg], Exit 1)"
    using process_line_short [OF assms(2,3)] by simp
  from for_lines_append_stop [OF this, of pre] assms(1)
  have eq: "for_lines tr (pre @ l # post) = (fst (for_lines tr pre), [?msg], Exit 1)"
    by (simp split: prod.splits)
  have m: "tr \<in> set transformations \<longrightarrow>
              main [prog, path, tr] (fs(path \<mapsto> pre @ l # post)) =
                \<lparr>stdout = fst (for_lines tr pre), stderr = [?msg],
                 status = Exit 1, opened = [path]\<rparr>"
    by (simp add: main_def eq)
  have e: "expected_columns ''simple_lower'' = 15 \<and> expected_columns ''simple_upper'' = 15
         \<and> expected_columns ''special_lower'' = 5 \<and> expected_columns ''special_upper'' = 5"
    by (simp add: expected_columns_def startswith_def)
  from eq m e show ?thesis by blast
qed

lemma continues_A:
  "continues ''simple_lower'' latin_capital_a"
  by (simp add: continues_def scenario_A)

theorem short_record_aborts_witness:
  "list_all (continues ''simple_lower'')
      [latin_capital_a]
   \<and> is_record short_record
   \<and> length (fields_of short_record) < expected_columns ''simple_lower''
   \<and> for_lines ''simple_lower''
        ([latin_capital_a]
         @ short_record # []) =
           (fst (for_lines ''simple_lower''
                   [latin_capital_a]),
            [''Expected at least '' @ to_dec (expected_columns ''simple_lower'')
               @ '' columns, but got '' @ to_dec (length (fields_of short_record))],
            Exit 1)"
proof -
  have c: "list_all (continues ''simple_lower'')
      [latin_capital_a]"
    using continues_A by simp
  note r = short_B [THEN conjunct1]
  have n: "length (fields_of short_record) < expected_columns ''simple_lower''"
    using short_B by (simp add: expected_columns_def startswith_def)
  from short_record_aborts [OF c r n, of "[]"] c r n show ?thesis by blast
qed

text \<open>
  Claim C3 as stated fails: a record of two fields after the record of LATIN CAPITAL
  LETTER A, in mode \<open>simple_lower\<close>, ends the run with exit code 1 after the entry of the
  first record has been written; and in mode \<open>special_lower\<close> a record of one field that
  follows a record of six fields is never reached, the run ending with exit status 0 and
  no diagnostic.
\<close>

theorem short_record_output_counterexample:
  "is_record short_record
   \<and> length (fields_of short_record) < expected_columns ''simple_lower''
   \<and> main [''gen'', ''UnicodeData.txt'', ''simple_lower'']
        [''UnicodeData.txt'' \<mapsto>
           [latin_capital_a,
            short_record]]
      = \<lparr>stdout = [''{U'' @ [squote, backslash] @ ''u0041'' @ [squote] @ '',U''
                     @ [squote, backslash] @ ''u0061'' @ [squote] @ ''},''],
         stderr = [''Expected at least 15 columns, but got 2''],
         status = Exit 1, opened = [''UnicodeData.txt'']\<rparr>
   \<and> is_record ''x''
   \<and> length (fields_of ''x'') < expected_columns ''special_lower''
   \<and> main [''gen'', ''SpecialCasing.txt'', ''special_lower'']
        [''SpecialCasing.txt'' \<mapsto>
           [final_sigma,
            ''x'']]
      = \<lparr>stdout = [], stderr = [], status = Exit 0, opened = [''SpecialCasing.txt'']\<rparr>"
proof -
  have e: "expected_columns ''simple_lower'' = 15 \<and> expected_columns ''special_lower'' = 5"
    by (simp add: expected_columns_def startswith_def)
  have d: "process_line ''simple_lower'' short_record
             = Die [''Expected at least 15 columns, but got 2''] 1"
    using process_line_short [of "short_record" "''simple_lower''"] short_B e
    by (simp add: to_dec.simps hex_char_def)
  have h: "process_line ''special_lower''
             final_sigma
           = Halt"
    using process_line_halt [of "''special_lower''"] sigma_six by simp
  have t: "''simple_lower'' \<in> set transformations \<and> ''special_lower'' \<in> set transformations"
    by (simp add: transformations_def)
  show ?thesis
    using t short_B short_x e by (simp add: main_def scenario_A d h)
qed


lemma mode_facts:
  "expected_columns ''simple_upper'' = 15" "expected_columns ''simple_lower'' = 15"
  "expected_columns ''special_upper'' = 5" "expected_columns ''special_lower'' = 5"
  "\<not> startswith ''simple_upper'' ''special''" "\<not> startswith ''simple_lower'' ''special''"
  "startswith ''special_upper'' ''special''" "startswith ''special_lower'' ''special''"
  by (simp_all add: expected_columns_def startswith_def)

lemma process_line_simple_upper:
  assumes "is_record l" and "15 \<le> length (fields_of l)"
  shows "process_line ''simple_upper'' l =
     (case py_int16 (fields_of l ! 0) of
        None \<Rightarrow> Throw ValueError
      | Some c \<Rightarrow>
          if fields_of l ! 2 = ''Ll'' \<and> fields_of l ! 12 \<noteq> [] then
            (case py_int16 (fields_of l ! 12) of
               None \<Rightarrow> Throw ValueError
             | Some t \<Rightarrow> Emit (print_simple c t))
          else Skip)"
proof -
  have r: "rstrip_newline l \<noteq> []" "\<not> startswith (rstrip_newline l) ''#''"
    using assms(1) by (simp_all add: is_record_def)
  have n: "\<not> length (fields_of l) < 15" "0 < length (fields_of l)" "2 < length (fields_of l)"
    "12 < length (fields_of l)"
    using assms(2) by auto
  show ?thesis
    unfolding process_line_def Let_def field_def fields_of_def [symmetric]
    by (simp only: r n mode_facts if_False if_True simp_thms) (simp split: option.splits)
qed


lemma process_line_simple_lower:
  assumes "is_record l" and "15 \<le> length (fields_of l)"
  shows "process_line ''simple_lower'' l =
     (case py_int16 (fields_of l ! 0) of
        None \<Rightarrow> Throw ValueError
      | Some c \<Rightarrow>
          if fields_of l ! 2 = ''Lu'' \<and> fields_of l ! 13 \<noteq> [] then
            (case py_int16 (fields_of l ! 13) of
               None \<Rightarrow> Throw ValueError
             | Some t \<Rightarrow> Emit (print_simple c t))
          else Skip)"
proof -
  have r: "rstrip_newline l \<noteq> []" "\<not> startswith (rstrip_newline l) ''#''"
    using assms(1) by (simp_all add: is_record_def)
  have n: "\<not> length (fields_of l) < 15" "0 < length (fields_of l)" "2 < length (fields_of l)"
    "13 < length (fields_of l)"
    using assms(2) by auto
  show ?thesis
    unfolding process_line_def Let_def field_def fields_of_def [symmetric]
    by (simp only: r n mode_facts if_False if_True simp_thms) (simp split: option.splits)
qed

lemma process_line_special_upper:
  assumes "is_record l" and "length (fields_of l) = 5"
  shows "process_line ''special_upper'' l =
     (case py_int16 (fields_of l ! 0) of
        None \<Rightarrow> Throw ValueError
      | Some c \<Rightarrow>
          (case parse_code_points (fields_of l ! 3) of
             None \<Rightarrow> Throw ValueError
           | Some seq \<Rightarrow> if 2 \<le> length seq then Emit (print_special c seq) else Skip))"
proof -
  have r: "rstrip_newline l \<noteq> []" "\<not> startswith (rstrip_newline l) ''#''"
    using assms(1) by (simp_all add: is_record_def)
  have n: "\<not> length (fields_of l) < 5" "\<not> 6 \<le> length (fields_of l)"
    "0 < length (fields_of l)" "3 < length (fields_of l)"
    using assms(2) by auto
  show ?thesis
    unfolding process_line_def Let_def field_def fields_of_def [symmetric]
    by (simp only: r n mode_facts if_False if_True simp_thms) (simp split: option.splits)
qed

lemma process_line_special_lower:
  assumes "is_record l" and "length (fields_of l) = 5"
  shows "process_line ''special_lower'' l =
     (case py_int16 (fields_of l ! 0) of
        None \<Rightarrow> Throw ValueError
      | Some c \<Rightarrow>
          (case parse_code_points (fields_of l ! 1) of
             None \<Rightarrow> Throw ValueError
           | Some seq \<Rightarrow> if 2 \<le> length seq then Emit (print_special c seq) else Skip))"
proof -
  have r: "rstrip_newline l \<noteq> []" "\<not> startswith (rstrip_newline l) ''#''"
    using assms(1) by (simp_all add: is_record_def)
  have n: "\<not> length (fields_of l) < 5" "\<not> 6 \<le> length (fields_of l)"
    "0 < length (fields_of l)" "1 < length (fields_of l)"
    using assms(2) by auto
  show ?thesis
    unfolding process_line_def Let_def field_def fields_of_def [symmetric]
    by (simp only: r n mode_facts if_False if_True simp_thms) (simp split: option.splits)
qed

lemma parse_code_points_iff:
  "parse_code_points s = Some seq
     \<longleftrightarrow> map py_int16 (split_on (CHR '' '') (strip s)) = map Some seq"
proof -
  have a: "list_all (\<lambda>p. p \<noteq> None) ps \<Longrightarrow> map Some (map the ps) = ps" for ps :: "int option list"
    by (induction ps) auto
  have b: "list_all (\<lambda>p. p \<noteq> None) (map Some xs)" for xs :: "int list"
    by (induction xs) auto
  have c: "map the (map Some xs) = xs" for xs :: "int list"
    by (induction xs) auto
  show ?thesis
  proof
    assume "parse_code_points s = Some seq"
    then have "list_all (\<lambda>p. p \<noteq> None) (map py_int16 (split_on (CHR '' '') (strip s)))"
      and "seq = map the (map py_int16 (split_on (CHR '' '') (strip s)))"
      by (auto simp: parse_code_points_def Let_def split: if_splits)
    then show "map py_int16 (split_on (CHR '' '') (strip s)) = map Some seq"
      using a by metis
  next
    assume "map py_int16 (split_on (CHR '' '') (strip s)) = map Some seq"
    then show "parse_code_points s = Some seq"
      unfolding parse_code_points_def Let_def using b [of seq] c [of seq] by simp
  qed
qed


text \<open>
  Claim C5. For a record with at least 15 fields whose first field is hexadecimal, mode
  \<open>simple_upper\<close> emits a line only if the category (field 2) is \<open>Ll\<close> and field 12 is not
  empty, the line is the simple mapping from the code point to the hexadecimal value of
  field 12, and a record failing this gate is skipped with nothing printed and no error;
  when field 12 is empty or hexadecimal, a line is emitted if and only if the gate holds.
  Mode \<open>simple_lower\<close> does the same with category \<open>Lu\<close> and field 13.
\<close>

theorem simple_mapping_gate:
  assumes "is_record l" and "15 \<le> length (fields_of l)"
    and "py_int16 (fields_of l ! 0) = Some c"
  shows "((fields_of l ! 12 = [] \<or> py_int16 (fields_of l ! 12) \<noteq> None) \<longrightarrow>
            ((\<exists>s. process_line ''simple_upper'' l = Emit s)
               \<longleftrightarrow> fields_of l ! 2 = ''Ll'' \<and> fields_of l ! 12 \<noteq> []))
         \<and> (\<forall>s. process_line ''simple_upper'' l = Emit s \<longrightarrow>
               fields_of l ! 2 = ''Ll'' \<and> fields_of l ! 12 \<noteq> []
               \<and> (\<exists>t. py_int16 (fields_of l ! 12) = Some t \<and> s = print_simple c t))
         \<and> (\<not> (fields_of l ! 2 = ''Ll'' \<and> fields_of l ! 12 \<noteq> []) \<longrightarrow>
               process_line ''simple_upper'' l = Skip)
         \<and> ((fields_of l ! 13 = [] \<or> py_int16 (fields_of l ! 13) \<noteq> None) \<longrightarrow>
            ((\<exists>s. process_line ''simple_lower'' l = Emit s)
               \<longleftrightarrow> fields_of l ! 2 = ''Lu'' \<and> fields_of l ! 13 \<noteq> []))
         \<and> (\<forall>s. process_line ''simple_lower'' l = Emit s \<longrightarrow>
               fields_of l ! 2 = ''Lu'' \<and> fields_of l ! 13 \<noteq> []
               \<and> (\<exists>t. py_int16 (fields_of l ! 13) = Some t \<and> s = print_simple c t))
         \<and> (\<not> (fields_of l ! 2 = ''Lu'' \<and> fields_of l ! 13 \<noteq> []) \<longrightarrow>
               process_line ''simple_lower'' l = Skip)"
proof -
  note u = process_line_simple_upper [OF assms(1,2), unfolded assms(3) option.case]
  note d = process_line_simple_lower [OF assms(1,2), unfolded assms(3) option.case]
  have up: "((fields_of l ! 12 = [] \<or> py_int16 (fields_of l ! 12) \<noteq> None) \<longrightarrow>
            ((\<exists>s. process_line ''simple_upper'' l = Emit s)
               \<longleftrightarrow> fields_of l ! 2 = ''Ll'' \<and> fields_of l ! 12 \<noteq> []))
         \<and> (\<forall>s. process_line ''simple_upper'' l = Emit s \<longrightarrow>
               fields_of l ! 2 = ''Ll'' \<and> fields_of l ! 12 \<noteq> []
               \<and> (\<exists>t. py_int16 (fields_of l ! 12) = Some t \<and> s = print_simple c t))
         \<and> (\<not> (fields_of l ! 2 = ''Ll'' \<and> fields_of l ! 12 \<noteq> []) \<longrightarrow>
               process_line ''simple_upper'' l = Skip)"
    unfolding u by (auto split: option.splits)
  have lo: "((fields_of l ! 13 = [] \<or> py_int16 (fields_of l ! 13) \<noteq> None) \<longrightarrow>
            ((\<exists>s. process_line ''simple_lower'' l = Emit s)
               \<longleftrightarrow> fields_of l ! 2 = ''Lu'' \<and> fields_of l ! 13 \<noteq> []))
         \<and> (\<forall>s. process_line ''simple_lower'' l = Emit s \<longrightarrow>
               fields_of l ! 2 = ''Lu'' \<and> fields_of l ! 13 \<noteq> []
               \<and> (\<exists>t. py_int16 (fields_of l ! 13) = Some t \<and> s = print_simple c t))
         \<and> (\<not> (fields_of l ! 2 = ''Lu'' \<and> fields_of l ! 13 \<noteq> []) \<longrightarrow>
               process_line ''simple_lower'' l = Skip)"
    unfolding d by (auto split: option.splits)
  from up lo show ?thesis by blast
qed

lemma small_a_fields:
  "is_record latin_small_a \<and> length (fields_of latin_small_a) = 15
   \<and> fields_of latin_small_a ! 0 = ''0061'' \<and> fields_of latin_small_a ! 2 = ''Ll''
   \<and> fields_of latin_small_a ! 12 = ''0041'' \<and> fields_of latin_small_a ! 13 = []"
  by (simp add: case_simps rstrip_newline_def startswith_def newline_def)

lemma int16_samples:
  "py_int16 ''0061'' = Some 0x61 \<and> py_int16 ''0041'' = Some 0x41 \<and> py_int16 ''00DF'' = Some 0xDF
   \<and> py_int16 [] = None"
  by (simp add: builtin_simps)

theorem simple_mapping_gate_witness:
  "is_record latin_small_a \<and> 15 \<le> length (fields_of latin_small_a)
   \<and> py_int16 (fields_of latin_small_a ! 0) = Some 0x61
   \<and> (\<exists>s. process_line ''simple_upper'' latin_small_a = Emit s)
   \<and> process_line ''simple_lower'' latin_small_a = Skip"
proof -
  note r = small_a_fields [THEN conjunct1]
  have n: "15 \<le> length (fields_of latin_small_a)" using small_a_fields by simp
  have c: "py_int16 (fields_of latin_small_a ! 0) = Some 0x61"
    using small_a_fields int16_samples by simp
  have g: "fields_of latin_small_a ! 12 = [] \<or> py_int16 (fields_of latin_small_a ! 12) \<noteq> None"
    using small_a_fields int16_samples by simp
  have ll: "fields_of latin_small_a ! 2 = ''Ll'' \<and> fields_of latin_small_a ! 12 \<noteq> []"
    using small_a_fields by simp
  have lu: "\<not> (fields_of latin_small_a ! 2 = ''Lu'' \<and> fields_of latin_small_a ! 13 \<noteq> [])"
    using small_a_fields by simp
  note T = simple_mapping_gate [OF r n c]
  from T g ll have "\<exists>s. process_line ''simple_upper'' latin_small_a = Emit s" by blast
  moreover from T lu have "process_line ''simple_lower'' latin_small_a = Skip" by blast
  ultimately show ?thesis using r n c by blast
qed

text \<open>
  Claim C6. For a record that the special modes process (exactly five fields, the first
  hexadecimal), the target sequence is read from field 3 in mode \<open>special_upper\<close> and from
  field 1 in mode \<open>special_lower\<close>: the field is stripped, split at every space, and each
  piece parsed as hexadecimal. A special mapping is emitted if and only if that sequence
  has at least two elements, and every emitted line is the special mapping of such a
  sequence.
\<close>

theorem special_mapping_gate:
  assumes "is_record l" and "length (fields_of l) = 5"
    and "py_int16 (fields_of l ! 0) = Some c"
  shows "(\<forall>seq. parse_code_points (fields_of l ! 3) = Some seq \<longrightarrow>
            process_line ''special_upper'' l =
              (if 2 \<le> length seq then Emit (print_special c seq) else Skip))
         \<and> (\<forall>s. process_line ''special_upper'' l = Emit s \<longrightarrow>
               (\<exists>seq. parse_code_points (fields_of l ! 3) = Some seq
                      \<and> 2 \<le> length seq \<and> s = print_special c seq))
         \<and> (\<forall>seq. parse_code_points (fields_of l ! 1) = Some seq \<longrightarrow>
            process_line ''special_lower'' l =
              (if 2 \<le> length seq then Emit (print_special c seq) else Skip))
         \<and> (\<forall>s. process_line ''special_lower'' l = Emit s \<longrightarrow>
               (\<exists>seq. parse_code_points (fields_of l ! 1) = Some seq
                      \<and> 2 \<le> length seq \<and> s = print_special c seq))
         \<and> (\<forall>s seq. parse_code_points s = Some seq
               \<longleftrightarrow> map py_int16 (split_on (CHR '' '') (strip s)) = map Some seq)"
proof -
  note u = process_line_special_upper [OF assms(1,2), unfolded assms(3) option.case]
  note d = process_line_special_lower [OF assms(1,2), unfolded assms(3) option.case]
  have up: "(\<forall>seq. parse_code_points (fields_of l ! 3) = Some seq \<longrightarrow>
            process_line ''special_upper'' l =
              (if 2 \<le> length seq then Emit (print_special c seq) else Skip))
         \<and> (\<forall>s. process_line ''special_upper'' l = Emit s \<longrightarrow>
               (\<exists>seq. parse_code_points (fields_of l ! 3) = Some seq
                      \<and> 2 \<le> length seq \<and> s = print_special c seq))"
    unfolding u by (auto split: option.splits if_splits)
  have lo: "(\<forall>seq. parse_code_points (fields_of l ! 1) = Some seq \<longrightarrow>
            process_line ''special_lower'' l =
              (if 2 \<le> length seq then Emit (print_special c seq) else Skip))
         \<and> (\<forall>s. process_line ''special_lower'' l = Emit s \<longrightarrow>
               (\<exists>seq. parse_code_points (fields_of l ! 1) = Some seq
                      \<and> 2 \<le> length seq \<and> s = print_special c seq))"
    unfolding d by (auto split: option.splits if_splits)
  from up lo parse_code_points_iff show ?thesis by blast
qed

lemma sharp_s_fields:
  "is_record sharp_s \<and> length (fields_of sharp_s) = 5
   \<and> fields_of sharp_s ! 0 = ''00DF'' \<and> fields_of sharp_s ! 1 = '' 00DF''
   \<and> fields_of sharp_s ! 3 = '' 0053 0053''"
  by (simp add: case_simps rstrip_newline_def startswith_def newline_def)

lemma sharp_s_parse:
  "parse_code_points '' 0053 0053'' = Some [0x53, 0x53]
   \<and> parse_code_points '' 00DF'' = Some [0xDF]"
  by (simp add: parse_code_points_def builtin_simps)

theorem special_mapping_gate_witness:
  "is_record sharp_s \<and> length (fields_of sharp_s) = 5
   \<and> py_int16 (fields_of sharp_s ! 0) = Some 0xDF
   \<and> process_line ''special_upper'' sharp_s = Emit (print_special 0xDF [0x53, 0x53])
   \<and> process_line ''special_lower'' sharp_s = Skip"
proof -
  note r = sharp_s_fields [THEN conjunct1]
  have n: "length (fields_of sharp_s) = 5" using sharp_s_fields by simp
  have c: "py_int16 (fields_of sharp_s ! 0) = Some 0xDF"
    using sharp_s_fields int16_samples by simp
  have p: "parse_code_points (fields_of sharp_s ! 3) = Some [0x53, 0x53]"
    and q: "parse_code_points (fields_of sharp_s ! 1) = Some [0xDF]"
    using sharp_s_fields sharp_s_parse by simp_all
  note T = special_mapping_gate [OF r n c]
  from T p have "process_line ''special_upper'' sharp_s =
      (if 2 \<le> length [0x53, 0x53 :: int] then Emit (print_special 0xDF [0x53, 0x53]) else Skip)"
    by blast
  then have u: "process_line ''special_upper'' sharp_s = Emit (print_special 0xDF [0x53, 0x53])"
    by simp
  from T q have "process_line ''special_lower'' sharp_s =
      (if 2 \<le> length [0xDF :: int] then Emit (print_special 0xDF [0xDF]) else Skip)"
    by blast
  then have d: "process_line ''special_lower'' sharp_s = Skip"
    by simp
  from u d r n c show ?thesis by blast
qed

section \<open>Properties of the entity generator and of the emitted lines\<close>

lemma name_cropped_eq: "name_cropped name = butlast (tl name)"
proof (cases name)
  case Nil
  then show ?thesis by (simp add: name_cropped_def slice_def slice_index_def)
next
  case (Cons a rest)
  have "take (length rest - 1) rest = butlast rest" by (simp add: butlast_conv_take)
  then show ?thesis using Cons by (simp add: name_cropped_def slice_def slice_index_def)
qed

lemma name_cropped_long:
  assumes "2 \<le> length name"
  shows "name = hd name # name_cropped name @ [last name]"
proof -
  obtain a rest where n: "name = a # rest" using assms by (cases name) auto
  then have "rest \<noteq> []" using assms by auto
  then have "rest = butlast rest @ [last rest]" by simp
  then show ?thesis using n \<open>rest \<noteq> []\<close> by (simp add: name_cropped_eq)
qed

lemma entry_line_ints:
  "entry_line (name, JObject [(''codepoints'', JArray (map JInt cps))]) =
     Inr (''{u8'' @ [dquote] @ name_cropped name @ [dquote] @ '',''
          @ to_dec (length (name_cropped name)) @ '',{'' @ format_code_points cps @ ''}},'')"
  by (simp add: entry_line_def entities_format_agrees)

text \<open>
  Claim C7, as amended. For every delimited name of at least two characters the bare name
  is the name without its first and its last character, whatever these are; for every
  name the bare name is \<open>butlast (tl name)\<close>, so a name of fewer than two characters gives
  the empty bare name. The recorded length is the number of characters of the bare name,
  and the code points are rendered in their order, none added or dropped; nothing about
  the name or the length of the sequence is checked.
\<close>

theorem name_trimmed:
  assumes "2 \<le> length name"
  shows "name = hd name # name_cropped name @ [last name]
         \<and> length (name_cropped name) = length name - 2
         \<and> name_cropped name = butlast (tl name)
         \<and> entry_line (name, JObject [(''codepoints'', JArray (map JInt cps))]) =
             Inr (''{u8'' @ [dquote] @ name_cropped name @ [dquote] @ '',''
                  @ to_dec (length (name_cropped name))
                  @ '',{'' @ format_code_points cps @ ''}},'')
         \<and> (\<forall>short. length short < 2 \<longrightarrow> name_cropped short = [])"
proof -
  have l: "length (name_cropped name) = length name - 2"
    by (simp add: name_cropped_eq)
  have s: "\<forall>short. length short < 2 \<longrightarrow> name_cropped short = []"
  proof (intro allI impI)
    fix short :: string
    assume "length short < 2"
    then have "length (name_cropped short) = 0" by (simp add: name_cropped_eq)
    then show "name_cropped short = []" by simp
  qed
  from name_cropped_long [OF assms] l name_cropped_eq entry_line_ints s show ?thesis by blast
qed

theorem name_trimmed_witness:
  "2 \<le> length ''&amp;''
   \<and> ''&amp;'' = hd ''&amp;'' # name_cropped ''&amp;'' @ [last ''&amp;'']
   \<and> length (name_cropped ''&amp;'') = length ''&amp;'' - 2"
proof -
  have h: "2 \<le> length ''&amp;''" by simp
  from name_trimmed [OF h] h show ?thesis by blast
qed

text \<open>
  Claim C7 as stated fails for names of fewer than two characters: the name \<open>&\<close> and the
  empty name both give the empty bare name, which is not the name with one leading and
  one trailing character removed, and is not two characters shorter than the name.
\<close>

theorem name_trimmed_counterexample:
  "name_cropped ''&'' = []
   \<and> ''&'' \<noteq> hd ''&'' # name_cropped ''&'' @ [last ''&'']
   \<and> int (length (name_cropped ''&'')) \<noteq> int (length ''&'') - 2
   \<and> name_cropped [] = []
   \<and> int (length (name_cropped [])) \<noteq> int (length ([] :: string)) - 2"
  by (simp add: name_cropped_eq)


lemma traverse_Inr_iff:
  "traverse f xs = Inr ys \<longleftrightarrow> map f xs = map Inr ys"
proof (induction xs arbitrary: ys)
  case Nil
  then show ?case by auto
next
  case (Cons x xs)
  show ?case
  proof (cases "f x")
    case (Inl e)
    then show ?thesis by (cases ys) auto
  next
    case (Inr y)
    then show ?thesis using Cons [of "tl ys"]
      by (cases ys) (auto split: sum.splits)
  qed
qed

lemma traverse_succeeds_iff:
  "(\<exists>ys. traverse f xs = Inr ys) \<longleftrightarrow> (\<forall>x\<in>set xs. \<exists>y. f x = Inr y)"
proof (induction xs)
  case Nil
  then show ?case by simp
next
  case (Cons x xs)
  then show ?case by (cases "f x") (auto split: sum.splits)
qed

lemma traverse_Inr_map:
  "traverse f xs = Inr ys \<Longrightarrow> ys = map (\<lambda>x. case f x of Inr y \<Rightarrow> y | Inl e \<Rightarrow> undefined) xs"
proof (induction xs arbitrary: ys)
  case Nil
  then show ?case by simp
next
  case (Cons x xs)
  then show ?case by (cases "f x") (auto split: sum.splits)
qed

lemma traverse_permuted:
  assumes "mset xs = mset xs'" and "traverse f xs = Inr ys"
  shows "\<exists>ys'. traverse f xs' = Inr ys' \<and> mset ys' = mset ys"
proof -
  have "set xs = set xs'" using assms(1) by (rule mset_eq_setD)
  moreover have "\<forall>x\<in>set xs. \<exists>y. f x = Inr y"
    using assms(2) traverse_succeeds_iff [of f xs] by blast
  ultimately obtain ys' where y: "traverse f xs' = Inr ys'"
    using traverse_succeeds_iff [of f xs'] by blast
  let ?g = "\<lambda>x. case f x of Inr y \<Rightarrow> y | Inl e \<Rightarrow> undefined"
  have "mset ys' = image_mset ?g (mset xs')" using traverse_Inr_map [OF y] by simp
  also have "\<dots> = image_mset ?g (mset xs)" using assms(1) by simp
  also have "\<dots> = mset ys" using traverse_Inr_map [OF assms(2)] by simp
  finally show ?thesis using y by blast
qed

lemma sort_mset_cong:
  fixes xs ys :: "string list"
  shows "mset xs = mset ys \<Longrightarrow> sort xs = sort ys"
  by (rule properties_for_sort) simp_all

lemma main_entities_ok:
  "traverse entry_line items = Inr output \<Longrightarrow>
   main_entities (JObject items) =
     \<lparr>stdout = [''// NOLINTBEGIN'', ''// clang-format off'', join [newline] (sort output),
                ''// clang-format on'', ''// NOLINTEND''],
      stderr = [], status = Exit 0, opened = []\<rparr>"
  by (simp add: main_entities_def)

lemma main_entities_raised:
  "traverse entry_line items = Inl e \<Longrightarrow>
   main_entities (JObject items) = \<lparr>stdout = [], stderr = [], status = Raised e, opened = []\<rparr>"
  by (simp add: main_entities_def)

text \<open>
  Claim C2. Two documents with the same entries in different iteration orders give the
  same printed output, byte for byte, and the same exit code; when every entry renders,
  the third print holds the rendered lines in sorted order, a permutation of what the
  loop appended.
\<close>

theorem entity_output_order_independent:
  assumes "mset items1 = mset items2"
  shows "stdout (main_entities (JObject items1)) = stdout (main_entities (JObject items2))
         \<and> written (stdout (main_entities (JObject items1)))
             = written (stdout (main_entities (JObject items2)))
         \<and> exit_code (status (main_entities (JObject items1)))
             = exit_code (status (main_entities (JObject items2)))
         \<and> (\<forall>output. traverse entry_line items1 = Inr output \<longrightarrow>
               (\<exists>lines. sorted lines \<and> mset lines = mset output
                  \<and> stdout (main_entities (JObject items1)) =
                      [''// NOLINTBEGIN'', ''// clang-format off'', join [newline] lines,
                       ''// clang-format on'', ''// NOLINTEND'']))"
proof -
  have same: "stdout (main_entities (JObject items1)) = stdout (main_entities (JObject items2))
      \<and> exit_code (status (main_entities (JObject items1)))
             = exit_code (status (main_entities (JObject items2)))"
  proof (cases "traverse entry_line items1")
    case (Inr out1)
    from traverse_permuted [OF assms Inr] obtain out2
      where o: "traverse entry_line items2 = Inr out2" "mset out2 = mset out1" by blast
    then have "sort out2 = sort out1" by (intro sort_mset_cong)
    then show ?thesis
      by (simp add: main_entities_ok [OF Inr] main_entities_ok [OF o(1)])
  next
    case (Inl e1)
    have "\<not> (\<exists>out2. traverse entry_line items2 = Inr out2)"
    proof
      assume "\<exists>out2. traverse entry_line items2 = Inr out2"
      then obtain out2 where "traverse entry_line items2 = Inr out2" by blast
      from traverse_permuted [OF assms [symmetric] this] Inl show False by simp
    qed
    then obtain e2 where "traverse entry_line items2 = Inl e2"
      by (cases "traverse entry_line items2") auto
    then show ?thesis
      by (simp add: main_entities_raised [OF Inl] main_entities_raised exit_code_def)
  qed
  have srt: "\<forall>output. traverse entry_line items1 = Inr output \<longrightarrow>
               (\<exists>lines. sorted lines \<and> mset lines = mset output
                  \<and> stdout (main_entities (JObject items1)) =
                      [''// NOLINTBEGIN'', ''// clang-format off'', join [newline] lines,
                       ''// clang-format on'', ''// NOLINTEND''])"
  proof (intro allI impI)
    fix out
    assume "traverse entry_line items1 = Inr out"
    from main_entities_ok [OF this]
    show "\<exists>lines. sorted lines \<and> mset lines = mset out
                  \<and> stdout (main_entities (JObject items1)) =
                      [''// NOLINTBEGIN'', ''// clang-format off'', join [newline] lines,
                       ''// clang-format on'', ''// NOLINTEND'']"
      by (intro exI [of _ "sort out"]) simp
  qed
  from same srt show ?thesis by simp
qed

theorem entity_output_order_independent_witness:
  "mset [(''&lt;'', JObject [(''codepoints'', JArray [JInt 60])]),
         (''&amp;'', JObject [(''codepoints'', JArray [JInt 38])])]
   = mset [(''&amp;'', JObject [(''codepoints'', JArray [JInt 38])]),
           (''&lt;'', JObject [(''codepoints'', JArray [JInt 60])])]
   \<and> stdout (main_entities (JObject
         [(''&lt;'', JObject [(''codepoints'', JArray [JInt 60])]),
          (''&amp;'', JObject [(''codepoints'', JArray [JInt 38])])]))
     = stdout (main_entities (JObject
         [(''&amp;'', JObject [(''codepoints'', JArray [JInt 38])]),
          (''&lt;'', JObject [(''codepoints'', JArray [JInt 60])])]))"
proof -
  have h: "mset [(''&lt;'', JObject [(''codepoints'', JArray [JInt 60])]),
         (''&amp;'', JObject [(''codepoints'', JArray [JInt 38])])]
   = mset [(''&amp;'', JObject [(''codepoints'', JArray [JInt 38])]),
           (''&lt;'', JObject [(''codepoints'', JArray [JInt 60])])]"
    by (simp add: add_mset_commute)
  from entity_output_order_independent [OF h] h show ?thesis by blast
qed


lemma entry_ok_line: "entry_ok entry \<Longrightarrow> \<exists>l. entry_line (name, entry) = Inr l"
proof -
  assume ok: "entry_ok entry"
  then obtain kvs where k: "entry = JObject kvs"
    by (cases entry) (auto simp: entry_ok_def)
  with ok obtain v where v: "map_of kvs ''codepoints'' = Some v"
    by (cases "map_of kvs ''codepoints''") (auto simp: entry_ok_def)
  with ok k obtain xs where x: "v = JArray xs" "list_all is_int xs"
    by (cases v) (auto simp: entry_ok_def)
  note e = k v [unfolded x(1)] x(2)
  have i: "is_int x \<Longrightarrow> \<exists>y. format_code_point x = Inr y" for x
    by (cases x) (simp_all add: is_int_def)
  have "\<forall>x\<in>set xs. \<exists>y. format_code_point x = Inr y"
    using e(3) i by (simp add: list_all_iff)
  then obtain ys where "traverse format_code_point xs = Inr ys"
    using traverse_succeeds_iff [of format_code_point xs] by blast
  then show ?thesis using e by (simp add: entry_line_def format_code_points_entities_def)
qed

lemma document_ok_runs: "document_ok data \<Longrightarrow> status (main_entities data) = Exit 0"
proof -
  assume ok: "document_ok data"
  then obtain items where d: "data = JObject items" "list_all (\<lambda>item. entry_ok (snd item)) items"
    by (auto simp: document_ok_def split: json.splits)
  have "\<forall>item\<in>set items. \<exists>l. entry_line item = Inr l"
  proof
    fix item assume "item \<in> set items"
    then have "entry_ok (snd item)" using d(2) by (simp add: list_all_iff)
    from entry_ok_line [OF this, of "fst item"] show "\<exists>l. entry_line item = Inr l" by simp
  qed
  then obtain out where "traverse entry_line items = Inr out"
    using traverse_succeeds_iff [of entry_line items] by blast
  from main_entities_ok [OF this] d(1) show ?thesis by simp
qed

lemma main_entities_exit0:
  assumes "status (main_entities data) = Exit 0"
  shows "\<exists>items out. data = JObject items \<and> traverse entry_line items = Inr out"
proof (cases data)
  case (JObject items)
  then show ?thesis using assms
    by (cases "traverse entry_line items") (auto simp: main_entities_def)
qed (use assms in \<open>auto simp: main_entities_def\<close>)

text \<open>
  Claim C10. A document of the expected shape always runs to completion, and whenever
  the run completes the output is the two fixed lines \<open>// NOLINTBEGIN\<close> and
  \<open>// clang-format off\<close>, then the sorted entry lines joined by newlines, then the two
  fixed lines \<open>// clang-format on\<close> and \<open>// NOLINTEND\<close>; only the entry lines are sorted.
  The empty document gives the four fixed lines around one empty line.
\<close>

theorem entity_output_wrapped:
  "(document_ok data \<longrightarrow> status (main_entities data) = Exit 0)
   \<and> (status (main_entities data) = Exit 0 \<longrightarrow>
        (\<exists>items out. data = JObject items \<and> traverse entry_line items = Inr out
           \<and> stdout (main_entities data) =
               [''// NOLINTBEGIN'', ''// clang-format off'', join [newline] (sort out),
                ''// clang-format on'', ''// NOLINTEND'']
           \<and> written (stdout (main_entities data)) =
               ''// NOLINTBEGIN'' @ [newline] @ ''// clang-format off'' @ [newline]
               @ join [newline] (sort out) @ [newline]
               @ ''// clang-format on'' @ [newline] @ ''// NOLINTEND'' @ [newline]))
   \<and> main_entities (JObject []) =
        \<lparr>stdout = [''// NOLINTBEGIN'', ''// clang-format off'', [],
                   ''// clang-format on'', ''// NOLINTEND''],
         stderr = [], status = Exit 0, opened = []\<rparr>"
proof -
  have a: "document_ok data \<longrightarrow> status (main_entities data) = Exit 0"
    using document_ok_runs by blast
  have b: "status (main_entities data) = Exit 0 \<longrightarrow>
        (\<exists>items out. data = JObject items \<and> traverse entry_line items = Inr out
           \<and> stdout (main_entities data) =
               [''// NOLINTBEGIN'', ''// clang-format off'', join [newline] (sort out),
                ''// clang-format on'', ''// NOLINTEND'']
           \<and> written (stdout (main_entities data)) =
               ''// NOLINTBEGIN'' @ [newline] @ ''// clang-format off'' @ [newline]
               @ join [newline] (sort out) @ [newline]
               @ ''// clang-format on'' @ [newline] @ ''// NOLINTEND'' @ [newline])"
  proof
    assume "status (main_entities data) = Exit 0"
    from main_entities_exit0 [OF this] obtain items out
      where d: "data = JObject items" and t: "traverse entry_line items = Inr out" by blast
    show "\<exists>items out. data = JObject items \<and> traverse entry_line items = Inr out
           \<and> stdout (main_entities data) =
               [''// NOLINTBEGIN'', ''// clang-format off'', join [newline] (sort out),
                ''// clang-format on'', ''// NOLINTEND'']
           \<and> written (stdout (main_entities data)) =
               ''// NOLINTBEGIN'' @ [newline] @ ''// clang-format off'' @ [newline]
               @ join [newline] (sort out) @ [newline]
               @ ''// clang-format on'' @ [newline] @ ''// NOLINTEND'' @ [newline]"
      using d t by (intro exI [of _ items] exI [of _ out])
        (simp add: main_entities_ok [OF t] written_def)
  qed
  have c: "main_entities (JObject []) =
        \<lparr>stdout = [''// NOLINTBEGIN'', ''// clang-format off'', [],
                   ''// clang-format on'', ''// NOLINTEND''],
         stderr = [], status = Exit 0, opened = []\<rparr>"
    by (simp add: main_entities_def)
  from a b c show ?thesis by blast
qed

lemma amp_line:
  "entry_line (''&amp;'', JObject [(''codepoints'', JArray [JInt 38])]) =
     Inr (''{u8'' @ [dquote] @ ''amp'' @ [dquote] @ '',3,{U'' @ [squote, backslash]
          @ ''u0026'' @ [squote] @ ''}},'')"
  by (simp add: entry_line_def format_code_points_entities_def format_int_def name_cropped_eq
      format_X_def zero_pad_def to_hex.simps to_dec.simps hex_char_def numeral_2_eq_2)

lemma amp_run:
  "main_entities amp_document =
     \<lparr>stdout = [''// NOLINTBEGIN'', ''// clang-format off'',
                ''{u8'' @ [dquote] @ ''amp'' @ [dquote] @ '',3,{U'' @ [squote, backslash]
                  @ ''u0026'' @ [squote] @ ''}},'',
                ''// clang-format on'', ''// NOLINTEND''],
      stderr = [], status = Exit 0, opened = []\<rparr>"
  by (simp add: main_entities_def amp_document_def amp_line)

theorem entity_output_wrapped_witness:
  "document_ok amp_document \<and> status (main_entities amp_document) = Exit 0
   \<and> (\<exists>items out. amp_document = JObject items \<and> traverse entry_line items = Inr out
           \<and> stdout (main_entities amp_document) =
               [''// NOLINTBEGIN'', ''// clang-format off'', join [newline] (sort out),
                ''// clang-format on'', ''// NOLINTEND''])"
proof -
  have d: "document_ok amp_document"
    by (simp add: document_ok_def amp_document_def entry_ok_def is_int_def)
  from entity_output_wrapped [of amp_document] d show ?thesis by blast
qed


lemma upper_hex_not_newline: "upper_hex c \<Longrightarrow> c \<noteq> newline"
  by (auto simp: upper_hex_def newline_def)

lemma to_dec_upper: "list_all upper_hex (to_dec n)"
proof (induction n rule: to_dec.induct)
  case (1 n)
  show ?case
  proof (cases "n < 10")
    case True
    then show ?thesis by (simp add: to_dec.simps [of n] upper_hex_hex_char)
  next
    case False
    have "n mod 10 < 16" by (rule less_trans [of _ 10]) simp_all
    with 1 False show ?thesis by (simp add: to_dec.simps [of n] upper_hex_hex_char)
  qed
qed

lemma upper_no_newline: "list_all upper_hex s \<Longrightarrow> newline \<notin> set s"
  by (auto simp: list_all_iff dest: upper_hex_not_newline)

lemma format_X_no_newline: "newline \<notin> set (format_X w n)"
proof -
  have "newline \<notin> set (zero_pad v (to_hex k))" for v k
    by (rule upper_no_newline) (simp add: zero_pad_upper to_hex_upper)
  then show ?thesis by (simp add: format_X_def newline_def)
qed

lemma to_char_escape_no_newline: "newline \<notin> set (to_char_escape c)"
  using format_X_no_newline [of 8 c] format_X_no_newline [of 4 c]
  by (simp add: to_char_escape_def backslash_def) (simp add: newline_def)

lemma to_char_literal_no_newline: "newline \<notin> set (to_char_literal c)"
  using to_char_escape_no_newline [of c]
  by (simp add: to_char_literal_def squote_def) (simp add: newline_def)

lemma join_no_newline:
  "\<forall>x\<in>set xs. newline \<notin> set x \<Longrightarrow> newline \<notin> set sep \<Longrightarrow> newline \<notin> set (join sep xs)"
  by (induction sep xs rule: join.induct) simp_all

lemma comma_no_newline: "newline \<notin> set '',''"
  by (simp add: newline_def)

lemma print_simple_text:
  "print_simple c t = ''{'' @ to_char_literal c @ '','' @ to_char_literal t @ ''},''"
  by (simp add: print_simple_def format_code_points_def)

lemma print_special_text:
  "print_special c seq =
     ''{'' @ to_char_literal c @ '',U'' @ [dquote] @ concat (map to_char_escape seq)
     @ [dquote] @ ''},''"
  by (simp add: print_special_def)

lemma print_simple_no_newline: "newline \<notin> set (print_simple c t)"
  using to_char_literal_no_newline [of c] to_char_literal_no_newline [of t]
  by (simp add: print_simple_text) (simp add: newline_def)

lemma print_special_no_newline: "newline \<notin> set (print_special c seq)"
  using to_char_literal_no_newline [of c] to_char_escape_no_newline
  by (simp add: print_special_text dquote_def) (simp add: newline_def)

lemma format_code_point_no_newline: "format_code_point x = Inr y \<Longrightarrow> newline \<notin> set y"
  using to_char_literal_no_newline by (cases x) (auto simp: format_int_literal)

lemma traverse_elements:
  "traverse f xs = Inr ys \<Longrightarrow> \<forall>y\<in>set ys. \<exists>x\<in>set xs. f x = Inr y"
proof (induction xs arbitrary: ys)
  case Nil
  then show ?case by simp
next
  case (Cons x xs)
  then show ?case by (cases "f x") (auto split: sum.splits)
qed

lemma entry_line_no_newline:
  assumes "entry_line (name, entry) = Inr s" and "newline \<notin> set (name_cropped name)"
  shows "newline \<notin> set s"
proof -
  from assms(1) obtain cps f where
    f: "format_code_points_entities cps = Inr f"
    and s: "s = ''{u8'' @ [dquote] @ name_cropped name @ [dquote] @ '',''
                @ to_dec (length (name_cropped name)) @ '',{'' @ f @ ''}},''"
    by (auto simp: entry_line_def split: sum.splits)
  from f obtain xs ys where t: "traverse format_code_point xs = Inr ys" and j: "f = join '','' ys"
    by (auto simp: format_code_points_entities_def split: sum.splits)
  have "\<forall>y\<in>set ys. newline \<notin> set y"
    using traverse_elements [OF t] format_code_point_no_newline by blast
  then have "newline \<notin> set f" unfolding j by (intro join_no_newline comma_no_newline)
  moreover have "newline \<notin> set (to_dec (length (name_cropped name)))"
    by (rule upper_no_newline) (rule to_dec_upper)
  ultimately show ?thesis using assms(2) by (simp add: s dquote_def) (simp add: newline_def)
qed


text \<open>
  Claim C8, as amended. Every emitted entry ends with a comma after its closing brace: a
  simple mapping is \<open>{<from-literal>,<to-literal>},\<close> and a special mapping is
  \<open>{<from-literal>,U"<escapes>"},\<close>, neither containing a newline, so each occupies one
  output line; an entity line contains no newline when its bare name contains none.
  Scenario A under \<open>simple_lower\<close> prints \<open>{U'\u0041',U'\u0061'},\<close> and Scenario C prints
  \<open>{u8"amp",3,{U'\u0026'}},\<close> between the fixed lines.
\<close>

theorem literal_lines:
  "print_simple c t = ''{'' @ to_char_literal c @ '','' @ to_char_literal t @ ''},''
   \<and> print_special c seq =
       ''{'' @ to_char_literal c @ '',U'' @ [dquote] @ concat (map to_char_escape seq)
       @ [dquote] @ ''},''
   \<and> newline \<notin> set (print_simple c t) \<and> newline \<notin> set (print_special c seq)
   \<and> (\<forall>s. entry_line (name, entry) = Inr s \<and> newline \<notin> set (name_cropped name)
          \<longrightarrow> newline \<notin> set s)
   \<and> main [prog, path, ''simple_lower''] [path \<mapsto> [latin_capital_a]] =
       \<lparr>stdout = [''{U'' @ [squote, backslash] @ ''u0041'' @ [squote] @ '',U''
                    @ [squote, backslash] @ ''u0061'' @ [squote] @ ''},''],
        stderr = [], status = Exit 0, opened = [path]\<rparr>
   \<and> main_entities amp_document =
       \<lparr>stdout = [''// NOLINTBEGIN'', ''// clang-format off'',
                  ''{u8'' @ [dquote] @ ''amp'' @ [dquote] @ '',3,{U'' @ [squote, backslash]
                    @ ''u0026'' @ [squote] @ ''}},'',
                  ''// clang-format on'', ''// NOLINTEND''],
        stderr = [], status = Exit 0, opened = []\<rparr>"
proof -
  have a: "main [prog, path, ''simple_lower''] [path \<mapsto> [latin_capital_a]] =
       \<lparr>stdout = [''{U'' @ [squote, backslash] @ ''u0041'' @ [squote] @ '',U''
                    @ [squote, backslash] @ ''u0061'' @ [squote] @ ''},''],
        stderr = [], status = Exit 0, opened = [path]\<rparr>"
    by (simp add: main_def transformations_def scenario_A)
  from print_simple_text print_special_text print_simple_no_newline print_special_no_newline
    entry_line_no_newline a amp_run
  show ?thesis by blast
qed

theorem literal_lines_witness:
  "entry_line (''&amp;'', JObject [(''codepoints'', JArray [JInt 38])]) =
     Inr (''{u8'' @ [dquote] @ ''amp'' @ [dquote] @ '',3,{U'' @ [squote, backslash]
          @ ''u0026'' @ [squote] @ ''}},'')
   \<and> newline \<notin> set (name_cropped ''&amp;'')
   \<and> newline \<notin> set (''{u8'' @ [dquote] @ ''amp'' @ [dquote] @ '',3,{U'' @ [squote, backslash]
          @ ''u0026'' @ [squote] @ ''}},'')"
proof -
  have n: "newline \<notin> set (name_cropped ''&amp;'')"
    by (simp add: name_cropped_eq newline_def)
  from literal_lines [of _ _ _ "''&amp;''" "JObject [(''codepoints'', JArray [JInt 38])]"]
    amp_line n
  show ?thesis by blast
qed

text \<open>
  Claim C8 as stated fails: the line of Scenario A is not \<open>{U'\u0041',U'\u0061'}\<close> and
  the line of Scenario C is not \<open>{u8"amp",3,{U'\u0026'}}\<close>; a simple mapping is not the
  two literals in braces with no further characters.
\<close>

theorem literal_lines_counterexample:
  "process_line ''simple_lower'' latin_capital_a \<noteq>
     Emit (''{U'' @ [squote, backslash] @ ''u0041'' @ [squote] @ '',U''
           @ [squote, backslash] @ ''u0061'' @ [squote] @ ''}'')
   \<and> print_simple 0x41 0x61 \<noteq>
       ''{'' @ to_char_literal 0x41 @ '','' @ to_char_literal 0x61 @ ''}''
   \<and> entry_line (''&amp;'', JObject [(''codepoints'', JArray [JInt 38])]) \<noteq>
       Inr (''{u8'' @ [dquote] @ ''amp'' @ [dquote] @ '',3,{U'' @ [squote, backslash]
            @ ''u0026'' @ [squote] @ ''}}'')"
  by (simp add: scenario_A amp_line print_simple_text)

end
